theory Spec2Isabelle
  imports Main "HOL-Library.Word" "HOL-Library.Multiset" "HOL-Library.Char_ord"
    "HOL-Library.List_Lexorder" "HOL-Library.Product_Lexorder"
begin

section \<open>The PTB data loader (research/maskgan/data/ptb\_loader.py)\<close>

text \<open>
  The module builds a word-to-id vocabulary from a token sequence, encodes token
  sequences as id streams and cuts an id stream into padded mini-batches.

  Conventions of the embedding:
  \<^item> a token is a Python string, here a \<open>string\<close>, the list of its bytes (in UTF-8,
    where the order of the byte lists is the order of the code points); strings are
    compared as Python compares them, lexicographically by character code (\<open>Char_ord\<close>,
    \<open>List_Lexorder\<close>), and the sort key \<open>(-count, word)\<close> as Python compares tuples
    (\<open>Product_Lexorder\<close>);
  \<^item> Python integers are \<open>int\<close>; the entries of the numpy arrays of dtype \<open>np.int32\<close>
    are \<open>32 word\<close>, read as signed numbers by \<open>sint\<close>;
  \<^item> a \<open>dict\<close> is an association list with distinct keys in insertion order;
  \<^item> an exception is a value of type \<open>error\<close>; a function that can raise returns
    \<open>error + 'a\<close>, with \<open>Inl\<close> for the exception;
  \<^item> the module variables \<open>EOS_INDEX\<close> and \<open>PAD_INDEX\<close> are a record that
    \<open>build_vocab\<close> takes and returns (also when it raises) and \<open>ptb_iterator\<close> reads;
  \<^item> \<open>_read_words\<close> reads a file: the token sequence it returns is the parameter
    \<open>data\<close> of \<open>build_vocab\<close> and \<open>file_to_word_ids\<close>.
\<close>

datatype error = ValueError | KeyError string | NotImplementedError | ZeroDivisionError

record globals =
  EOS_INDEX :: int
  PAD_INDEX :: int

text \<open>The values the module gives its two variables when it is loaded (lines 29-30).\<close>

definition module_globals :: globals where
  "module_globals = \<lparr>EOS_INDEX = 0, PAD_INDEX = 0\<rparr>"

subsection \<open>Dictionaries\<close>

type_synonym ('k, 'v) dict = "('k \<times> 'v) list"

text \<open>\<open>d[k] = v\<close>: an existing key keeps its place, a new key goes to the end.\<close>

fun dict_setitem :: "('k, 'v) dict \<Rightarrow> 'k \<Rightarrow> 'v \<Rightarrow> ('k, 'v) dict" where
  "dict_setitem [] k v = [(k, v)]"
| "dict_setitem ((k', v') # d) k v =
     (if k' = k then (k', v) # d else (k', v') # dict_setitem d k v)"

text \<open>\<open>k in d\<close>.\<close>

definition dict_contains :: "'k \<Rightarrow> ('k, 'v) dict \<Rightarrow> bool" where
  "dict_contains k d = (map_of d k \<noteq> None)"

text \<open>\<open>d[k]\<close>, which raises \<open>KeyError\<close> on a missing key.\<close>

definition dict_getitem :: "(string, 'v) dict \<Rightarrow> string \<Rightarrow> error + 'v" where
  "dict_getitem d k = (case map_of d k of None \<Rightarrow> Inl (KeyError k) | Some v \<Rightarrow> Inr v)"

text \<open>\<open>d.get(k, default)\<close>.\<close>

definition dict_get :: "('k, 'v) dict \<Rightarrow> 'k \<Rightarrow> 'v \<Rightarrow> 'v" where
  "dict_get d k dflt = (case map_of d k of None \<Rightarrow> dflt | Some v \<Rightarrow> v)"

text \<open>\<open>dict(pairs)\<close>: the pairs are stored one after the other.\<close>

definition dict_of_pairs :: "('k \<times> 'v) list \<Rightarrow> ('k, 'v) dict" where
  "dict_of_pairs pairs = foldl (\<lambda>d (k, v). dict_setitem d k v) [] pairs"

text \<open>\<open>collections.Counter(data)\<close>: \<open>self[elem] = self.get(elem, 0) + 1\<close> for every element.\<close>

definition Counter :: "'k list \<Rightarrow> ('k, int) dict" where
  "Counter data = foldl (\<lambda>c elem. dict_setitem c elem (dict_get c elem 0 + 1)) [] data"

subsection \<open>Vocabulary construction\<close>

text \<open>Line 43: \<open>sorted(counter.items(), key=lambda x: (-x[1], x[0]))\<close>; \<open>sorted\<close> is stable,
  as \<open>sort_key\<close> is.\<close>

definition count_pairs :: "string list \<Rightarrow> (string \<times> int) list" where
  "count_pairs data = sort_key (\<lambda>x. (- snd x, fst x)) (Counter data)"

text \<open>Line 45: \<open>words, _ = list(zip(*count_pairs))\<close>. The transposition of a list of pairs
  has two components unless the list is empty; then it has none and the unpacking into two
  names raises \<open>ValueError\<close>.\<close>

definition unzip_pairs :: "('a \<times> 'b) list \<Rightarrow> error + ('a list \<times> 'b list)" where
  "unzip_pairs ps = (if ps = [] then Inl ValueError else Inr (map fst ps, map snd ps))"

text \<open>Line 46: \<open>dict(zip(words, range(len(words))))\<close>.\<close>

definition word_ids :: "string list \<Rightarrow> (string, int) dict" where
  "word_ids words = dict_of_pairs (zip words (map int [0..<length words]))"

text \<open>Lines 38-54. The two \<open>print\<close> calls look both markers up (and raise \<open>KeyError\<close>
  when one is missing) before either module variable is assigned.\<close>

definition build_vocab :: "string list \<Rightarrow> globals \<Rightarrow> (error + (string, int) dict) \<times> globals" where
  "build_vocab data g =
     (case unzip_pairs (count_pairs data) of
        Inl e \<Rightarrow> (Inl e, g)
      | Inr (words, _) \<Rightarrow>
          (let word_to_id = word_ids words in
           case dict_getitem word_to_id ''<eos>'' of
             Inl e \<Rightarrow> (Inl e, g)
           | Inr _ \<Rightarrow>
          (case dict_getitem word_to_id ''<pad>'' of
             Inl e \<Rightarrow> (Inl e, g)
           | Inr _ \<Rightarrow>
          (case dict_getitem word_to_id ''<eos>'' of
             Inl e \<Rightarrow> (Inl e, g)
           | Inr eos \<Rightarrow>
          (let g1 = g\<lparr>EOS_INDEX := eos\<rparr> in
           case dict_getitem word_to_id ''<pad>'' of
             Inl e \<Rightarrow> (Inl e, g1)
           | Inr pad \<Rightarrow> (Inr word_to_id, g1\<lparr>PAD_INDEX := pad\<rparr>))))))"

subsection \<open>Encoding\<close>

text \<open>Line 59: \<open>[word_to_id[word] for word in data if word in word_to_id]\<close>.\<close>

fun file_to_word_ids :: "string list \<Rightarrow> (string, int) dict \<Rightarrow> error + int list" where
  "file_to_word_ids [] word_to_id = Inr []"
| "file_to_word_ids (word # data) word_to_id =
     (if dict_contains word word_to_id then
        (case dict_getitem word_to_id word of
           Inl e \<Rightarrow> Inl e
         | Inr i \<Rightarrow>
             (case file_to_word_ids data word_to_id of
                Inl e \<Rightarrow> Inl e
              | Inr ids \<Rightarrow> Inr (i # ids)))
      else file_to_word_ids data word_to_id)"

subsection \<open>Batching\<close>

type_synonym int32 = "32 word"

text \<open>The conversion of a Python integer to \<open>np.int32\<close>. It keeps every integer from
  \<open>-2^31\<close> up to \<open>2^31 - 1\<close> (\<open>sint_np_int32\<close> below), so every id of a vocabulary of fewer
  than \<open>2^31\<close> words. An integer outside that range is no id of such a vocabulary; for it
  the model wraps around modulo \<open>2^32\<close>, as a C cast does.\<close>

definition np_int32 :: "int \<Rightarrow> int32" where
  "np_int32 n = word_of_int n"

text \<open>\<open>np.where(a == v)[0]\<close>: the positions of the entries equal to the Python integer \<open>v\<close>,
  in increasing order.\<close>

definition np_where_eq :: "int32 list \<Rightarrow> int \<Rightarrow> nat list" where
  "np_where_eq a v = filter (\<lambda>i. sint (a ! i) = v) [0..<length a]"

text \<open>\<open>np.split(a, indices)\<close> for a list of indices: the pieces \<open>a[0:i1]\<close>, \<open>a[i1:i2]\<close>, ...,
  \<open>a[ik:]\<close>, one more than there are indices.\<close>

fun np_split_from :: "'a list \<Rightarrow> nat \<Rightarrow> nat list \<Rightarrow> 'a list list" where
  "np_split_from a st [] = [drop st a]"
| "np_split_from a st (e # indices) = take (e - st) (drop st a) # np_split_from a e indices"

definition np_split :: "'a list \<Rightarrow> nat list \<Rightarrow> 'a list list" where
  "np_split a indices = np_split_from a 0 indices"

text \<open>\<open>np.full([rows, cols], v, dtype=np.int32)\<close>, a list of rows; a negative dimension
  raises \<open>ValueError\<close>.\<close>

definition np_full :: "int \<Rightarrow> int \<Rightarrow> int \<Rightarrow> error + int32 list list" where
  "np_full rows cols v =
     (if rows < 0 \<or> cols < 0 then Inl ValueError
      else Inr (replicate (nat rows) (replicate (nat cols) (np_int32 v))))"

text \<open>Line 109: the id stream is cut after every entry equal to \<open>EOS_INDEX\<close>.\<close>

definition split_sentences :: "globals \<Rightarrow> int32 list \<Rightarrow> int32 list list" where
  "split_sentences g raw = np_split raw (map Suc (np_where_eq raw (EOS_INDEX g)))"

text \<open>Lines 115-116, the body of the loop: \<open>sent = sentences[i][:sequence_length+1]\<close> and
  \<open>data[i][:len(sent)] = sent\<close>. The loop runs only after \<open>np.full\<close> has accepted
  \<open>sequence_length+1\<close> as a dimension, so the slice bound is not negative.\<close>

definition copy_sentence :: "int \<Rightarrow> int32 list list \<Rightarrow> int32 list list \<Rightarrow> nat \<Rightarrow> int32 list list" where
  "copy_sentence sequence_length sentences data i =
     (let sent = take (nat (sequence_length + 1)) (sentences ! i)
      in data[i := sent @ drop (length sent) (data ! i)])"

text \<open>Lines 111-116: the padded sentence matrix.\<close>

definition pad_sentences :: "globals \<Rightarrow> int32 list list \<Rightarrow> int \<Rightarrow> error + int32 list list" where
  "pad_sentences g sentences sequence_length =
     (let sentence_len = length sentences in
      case np_full (int sentence_len) (sequence_length + 1) (PAD_INDEX g) of
        Inl e \<Rightarrow> Inl e
      | Inr data \<Rightarrow> Inr (foldl (copy_sentence sequence_length sentences) data [0..<sentence_len]))"

type_synonym batch = "int32 list list \<times> int32 list list \<times> int32 list list"

text \<open>Lines 124-126, the body of the loop that yields. It runs only for
  \<open>0 \<le> i < sentence_len // batch_size\<close>, where both row bounds are non-negative; \<open>[:-1]\<close>
  drops the last column and \<open>[1:]\<close> the first.\<close>

definition make_batch :: "int32 list list \<Rightarrow> int \<Rightarrow> nat \<Rightarrow> batch" where
  "make_batch data batch_size i =
     (let lo = nat (int i * batch_size);
          hi = nat ((int i + 1) * batch_size);
          rows = take (hi - lo) (drop lo data);
          x = map butlast rows;
          y = map tl rows;
          w = map (map (\<lambda>_. 1)) x
      in (x, y, w))"

text \<open>The truth value of the argument \<open>epoch_size_override\<close>, which is \<open>None\<close> or an
  integer.\<close>

definition truthy :: "int option \<Rightarrow> bool" where
  "truthy v = (case v of None \<Rightarrow> False | Some n \<Rightarrow> n \<noteq> 0)"

text \<open>Lines 88-132. \<open>ptb_iterator\<close> is a generator function. This definition is its body:
  what iterating the generator to its end produces, the list of the batches it yields or
  the exception it raises. Every \<open>raise\<close> of the body comes before the first \<open>yield\<close>, so
  an exception means that no batch was yielded. The call itself and the single requests
  for a batch are \<open>ptb_iterator_call\<close> and \<open>generator_next\<close> below.\<close>

definition ptb_iterator :: "globals \<Rightarrow> int list \<Rightarrow> int \<Rightarrow> int \<Rightarrow> int option \<Rightarrow> error + batch list" where
  "ptb_iterator g raw_data batch_size sequence_length epoch_size_override =
     (let raw = map np_int32 raw_data;
          sentences = split_sentences g raw;
          sentence_len = length sentences
      in case pad_sentences g sentences sequence_length of
           Inl e \<Rightarrow> Inl e
         | Inr data \<Rightarrow>
             if truthy epoch_size_override then Inl NotImplementedError
             else if batch_size = 0 then Inl ZeroDivisionError
             else (let epoch_size = int sentence_len div batch_size
                   in Inr (map (make_batch data batch_size) [0..<nat epoch_size])))"





section \<open>Vocabulary construction\<close>

subsection \<open>Dictionaries with distinct keys\<close>

lemma map_of_dict_setitem: "map_of (dict_setitem d k v) = (map_of d)(k \<mapsto> v)"
  by (induction d k v rule: dict_setitem.induct) auto

lemma dict_setitem_new: "k \<notin> fst ` set d \<Longrightarrow> dict_setitem d k v = d @ [(k, v)]"
  by (induction d k v rule: dict_setitem.induct) auto

lemma keys_dict_setitem:
  "map fst (dict_setitem d k v) = (if k \<in> fst ` set d then map fst d else map fst d @ [k])"
  by (induction d k v rule: dict_setitem.induct) auto

lemma distinct_dict_setitem:
  "distinct (map fst d) \<Longrightarrow> distinct (map fst (dict_setitem d k v))"
  by (simp add: keys_dict_setitem)

lemma foldl_dict_setitem_distinct:
  "distinct (map fst (acc @ ps)) \<Longrightarrow> foldl (\<lambda>d (k, v). dict_setitem d k v) acc ps = acc @ ps"
proof (induction ps arbitrary: acc)
  case Nil
  then show ?case by simp
next
  case (Cons p ps)
  obtain k v where p: "p = (k, v)" by (cases p)
  from Cons.prems have "k \<notin> fst ` set acc" by (auto simp: p)
  then have "dict_setitem acc k v = acc @ [p]" by (simp add: dict_setitem_new p)
  with Cons show ?case by (simp add: p)
qed

lemma dict_of_pairs_distinct: "distinct (map fst ps) \<Longrightarrow> dict_of_pairs ps = ps"
  using foldl_dict_setitem_distinct [of "[]" ps] by (simp add: dict_of_pairs_def)

subsection \<open>The counts\<close>

lemma Counter_fold_distinct:
  "distinct (map fst c) \<Longrightarrow>
   distinct (map fst (foldl (\<lambda>c elem. dict_setitem c elem (dict_get c elem 0 + 1)) c data))"
  by (induction data arbitrary: c) (simp_all add: distinct_dict_setitem)

lemma Counter_fold_map_of:
  "map_of (foldl (\<lambda>c elem. dict_setitem c elem (dict_get c elem 0 + 1)) c data) w =
     (if w \<in> dom (map_of c) \<union> set data
      then Some (dict_get c w (0::int) + int (count_list data w)) else None)"
proof (induction data arbitrary: c)
  case Nil
  then show ?case by (auto simp: dict_get_def)
next
  case (Cons x data)
  let ?c = "dict_setitem c x (dict_get c x 0 + 1)"
  have dom: "dom (map_of ?c) = insert x (dom (map_of c))"
    by (simp add: map_of_dict_setitem)
  have get: "dict_get ?c w 0 = (if w = x then dict_get c x 0 + 1 else dict_get c w 0)"
    by (simp add: dict_get_def map_of_dict_setitem)
  show ?case
    by (simp only: foldl_Cons Cons.IH dom get) auto
qed

lemma distinct_Counter: "distinct (map fst (Counter data))"
  unfolding Counter_def by (rule Counter_fold_distinct) simp

lemma map_of_Counter:
  "map_of (Counter data) w = (if w \<in> set data then Some (int (count_list data w)) else None)"
  unfolding Counter_def by (subst Counter_fold_map_of) (simp add: dict_get_def)

lemma set_Counter: "set (Counter data) = (\<lambda>w. (w, int (count_list data w))) ` set data"
proof -
  have "(w, c) \<in> set (Counter data) \<longleftrightarrow> w \<in> set data \<and> c = int (count_list data w)" for w c
    using map_of_eq_Some_iff [OF distinct_Counter, of data w c]
    by (auto simp: map_of_Counter split: if_splits)
  then show ?thesis by auto
qed

lemma Counter_mset:
  assumes "mset data' = mset data"
  shows "mset (Counter data') = mset (Counter data)"
proof -
  have "count_list data' w = count_list data w" for w
    using assms by (metis count_mset)
  moreover have "set data' = set data" using assms by (rule mset_eq_setD)
  ultimately have "set (Counter data') = set (Counter data)" by (simp add: set_Counter)
  moreover have "distinct (Counter data')" "distinct (Counter data)"
    using distinct_Counter distinct_map by blast+
  ultimately show ?thesis by (simp add: set_eq_iff_mset_eq_distinct)
qed

subsection \<open>The sorted counts\<close>

lemma sort_key_inj: "inj_on (\<lambda>x. (- snd x, fst x)) (A :: (string \<times> int) set)"
  by (auto simp: inj_on_def prod_eq_iff)

lemma set_count_pairs: "set (count_pairs data) = (\<lambda>w. (w, int (count_list data w))) ` set data"
  by (simp add: count_pairs_def set_Counter)

lemma sorted_count_pairs: "sorted (map (\<lambda>x. (- snd x, fst x)) (count_pairs data))"
  by (simp add: count_pairs_def)

lemma distinct_count_pairs: "distinct (map fst (count_pairs data))"
proof -
  have "mset (map fst (count_pairs data)) = mset (map fst (Counter data))"
    by (simp add: count_pairs_def)
  then show ?thesis using distinct_Counter [of data] by (metis mset_eq_imp_distinct_iff)
qed

lemma count_pairs_mset:
  assumes "mset data' = mset data"
  shows "count_pairs data' = count_pairs data"
  unfolding count_pairs_def [of data']
  by (rule sort_key_inj_key_eq)
    (simp_all add: count_pairs_def Counter_mset [OF assms] sort_key_inj)

lemma count_pairs_empty_iff: "count_pairs data = [] \<longleftrightarrow> data = []"
  using set_count_pairs [of data] by (metis image_is_empty set_empty)

subsection \<open>The vocabulary\<close>

text \<open>The words are distinct, so \<open>dict\<close> stores the pairs of line 46 as they come: the
  word at position \<open>k\<close> of the sorted counts gets the id \<open>k\<close>.\<close>

lemma word_ids_zip:
  "distinct words \<Longrightarrow> word_ids words = zip words (map int [0..<length words])"
  unfolding word_ids_def by (rule dict_of_pairs_distinct) simp

lemma set_words: "set (map fst (count_pairs data)) = set data"
  by (simp add: set_count_pairs image_image)

lemma length_count_pairs: "length (count_pairs data) = card (set data)"
  using distinct_card [OF distinct_count_pairs, of data] set_words [of data] by simp

lemma vocabulary_zip:
  "word_ids (map fst (count_pairs data)) =
     zip (map fst (count_pairs data)) (map int [0..<card (set data)])"
  using word_ids_zip [OF distinct_count_pairs, of data] by (simp add: length_count_pairs)

lemma vocabulary_keys: "map fst (word_ids (map fst (count_pairs data))) = map fst (count_pairs data)"
  by (simp add: vocabulary_zip length_count_pairs)

lemma vocabulary_ids: "map snd (word_ids (map fst (count_pairs data))) = map int [0..<card (set data)]"
  by (simp add: vocabulary_zip length_count_pairs)

lemma vocabulary_lookup:
  "map_of (word_ids (map fst (count_pairs data))) w = Some i \<longleftrightarrow>
     (\<exists>k < card (set data). fst (count_pairs data ! k) = w \<and> i = int k)"
proof -
  let ?v = "word_ids (map fst (count_pairs data))"
  have "distinct (map fst ?v)" by (simp add: vocabulary_keys distinct_count_pairs)
  then have "map_of ?v w = Some i \<longleftrightarrow> (w, i) \<in> set ?v" by simp
  also have "\<dots> \<longleftrightarrow> (\<exists>k < card (set data). fst (count_pairs data ! k) = w \<and> i = int k)"
  proof
    assume "(w, i) \<in> set ?v"
    then show "\<exists>k < card (set data). fst (count_pairs data ! k) = w \<and> i = int k"
      by (auto simp: vocabulary_zip in_set_zip length_count_pairs)
  next
    assume "\<exists>k < card (set data). fst (count_pairs data ! k) = w \<and> i = int k"
    then obtain k where k: "k < card (set data)" "fst (count_pairs data ! k) = w" "i = int k"
      by blast
    then have "map fst (count_pairs data) ! k = w \<and> map int [0..<card (set data)] ! k = i \<and>
        k < length (map fst (count_pairs data)) \<and> k < length (map int [0..<card (set data)])"
      by (simp add: length_count_pairs)
    then show "(w, i) \<in> set ?v"
      unfolding vocabulary_zip in_set_zip by (intro exI [of _ k]) simp
  qed
  finally show ?thesis .
qed

lemma count_pairs_nth:
  assumes "k < card (set data)"
  shows "fst (count_pairs data ! k) \<in> set data"
    and "snd (count_pairs data ! k) = int (count_list data (fst (count_pairs data ! k)))"
proof -
  have "count_pairs data ! k \<in> set (count_pairs data)"
    using assms by (simp add: length_count_pairs)
  then have "count_pairs data ! k \<in> (\<lambda>w. (w, int (count_list data w))) ` set data"
    by (simp only: set_count_pairs)
  then show "fst (count_pairs data ! k) \<in> set data"
    and "snd (count_pairs data ! k) = int (count_list data (fst (count_pairs data ! k)))"
    by auto
qed

lemma count_pairs_strict:
  assumes "k1 < k2" and "k2 < card (set data)"
  shows "(- snd (count_pairs data ! k1), fst (count_pairs data ! k1)) <
         (- snd (count_pairs data ! k2), fst (count_pairs data ! k2))"
proof -
  let ?cp = "count_pairs data"
  let ?key = "\<lambda>x :: string \<times> int. (- snd x, fst x)"
  have len: "k2 < length ?cp" "k1 < length ?cp" using assms by (simp_all add: length_count_pairs)
  have "map ?key ?cp ! k1 \<le> map ?key ?cp ! k2"
    using sorted_count_pairs [of data] assms(1) len by (intro sorted_nth_mono) simp_all
  then have le: "?key (?cp ! k1) \<le> ?key (?cp ! k2)" using len by simp
  have "map fst ?cp ! k1 \<noteq> map fst ?cp ! k2"
    using nth_eq_iff_index_eq [OF distinct_count_pairs, of k1 data k2] assms(1) len by simp
  then have "fst (?cp ! k1) \<noteq> fst (?cp ! k2)" using len by simp
  then have "?key (?cp ! k1) \<noteq> ?key (?cp ! k2)" by simp
  with le show ?thesis by (rule le_neq_trans)
qed

lemma count_pairs_order:
  assumes "k1 < card (set data)" and "k2 < card (set data)"
  shows "k1 < k2 \<longleftrightarrow>
         (- snd (count_pairs data ! k1), fst (count_pairs data ! k1)) <
         (- snd (count_pairs data ! k2), fst (count_pairs data ! k2))"
proof
  assume "k1 < k2"
  then show "(- snd (count_pairs data ! k1), fst (count_pairs data ! k1)) <
         (- snd (count_pairs data ! k2), fst (count_pairs data ! k2))"
    using assms(2) by (rule count_pairs_strict)
next
  assume less: "(- snd (count_pairs data ! k1), fst (count_pairs data ! k1)) <
         (- snd (count_pairs data ! k2), fst (count_pairs data ! k2))"
  show "k1 < k2"
  proof (rule ccontr)
    assume "\<not> k1 < k2"
    then consider "k1 = k2" | "k2 < k1" by linarith
    then show False
    proof cases
      case 1
      with less show False by simp
    next
      case 2
      from count_pairs_strict [OF 2 assms(1)] less show False by (meson less_asym)
    qed
  qed
qed

lemma vocabulary_order:
  assumes "map_of (word_ids (map fst (count_pairs data))) w1 = Some i1"
    and "map_of (word_ids (map fst (count_pairs data))) w2 = Some i2"
  shows "i1 < i2 \<longleftrightarrow>
    count_list data w2 < count_list data w1 \<or> (count_list data w1 = count_list data w2 \<and> w1 < w2)"
proof -
  from assms(1) obtain k1 where k1: "k1 < card (set data)" "fst (count_pairs data ! k1) = w1" "i1 = int k1"
    by (auto simp: vocabulary_lookup)
  from assms(2) obtain k2 where k2: "k2 < card (set data)" "fst (count_pairs data ! k2) = w2" "i2 = int k2"
    by (auto simp: vocabulary_lookup)
  have c1: "snd (count_pairs data ! k1) = int (count_list data w1)"
    using count_pairs_nth(2) [OF k1(1)] k1(2) by simp
  have c2: "snd (count_pairs data ! k2) = int (count_list data w2)"
    using count_pairs_nth(2) [OF k2(1)] k2(2) by simp
  have "i1 < i2 \<longleftrightarrow> k1 < k2" by (simp add: k1 k2)
  also have "\<dots> \<longleftrightarrow> (- int (count_list data w1), w1) < (- int (count_list data w2), w2)"
    using count_pairs_order [OF k1(1) k2(1)] by (simp only: c1 c2 k1(2) k2(2))
  also have "\<dots> \<longleftrightarrow> count_list data w2 < count_list data w1 \<or>
      (count_list data w1 = count_list data w2 \<and> w1 < w2)"
    by auto
  finally show ?thesis .
qed

lemma vocabulary_dom:
  "map_of (word_ids (map fst (count_pairs data))) w = None \<longleftrightarrow> w \<notin> set data"
proof -
  have "fst ` set (word_ids (map fst (count_pairs data))) = set data"
    using vocabulary_keys [of data] set_words [of data] by (metis set_map)
  then show ?thesis by (simp add: map_of_eq_None_iff)
qed

lemma build_vocab_cases:
  "build_vocab data g =
    (if data = [] then (Inl ValueError, g)
     else if ''<eos>'' \<notin> set data then (Inl (KeyError ''<eos>''), g)
     else if ''<pad>'' \<notin> set data then (Inl (KeyError ''<pad>''), g)
     else (Inr (word_ids (map fst (count_pairs data))),
           g\<lparr>EOS_INDEX := the (map_of (word_ids (map fst (count_pairs data))) ''<eos>''),
             PAD_INDEX := the (map_of (word_ids (map fst (count_pairs data))) ''<pad>'')\<rparr>))"
proof -
  let ?v = "word_ids (map fst (count_pairs data))"
  have eos: "dict_getitem ?v ''<eos>'' =
      (if ''<eos>'' \<in> set data then Inr (the (map_of ?v ''<eos>'')) else Inl (KeyError ''<eos>''))"
    using vocabulary_dom [of data "''<eos>''"] by (auto simp: dict_getitem_def split: option.splits)
  have pad: "dict_getitem ?v ''<pad>'' =
      (if ''<pad>'' \<in> set data then Inr (the (map_of ?v ''<pad>'')) else Inl (KeyError ''<pad>''))"
    using vocabulary_dom [of data "''<pad>''"] by (auto simp: dict_getitem_def split: option.splits)
  have unzip: "unzip_pairs (count_pairs data) =
      (if data = [] then Inl ValueError
       else Inr (map fst (count_pairs data), map snd (count_pairs data)))"
    by (simp add: unzip_pairs_def count_pairs_empty_iff)
  show ?thesis
    unfolding build_vocab_def unzip by (simp add: Let_def eos pad)
qed

lemma build_vocab_Inr:
  assumes "build_vocab data g = (Inr word_to_id, g')"
  shows "word_to_id = word_ids (map fst (count_pairs data))"
    and "data \<noteq> []" and "''<eos>'' \<in> set data" and "''<pad>'' \<in> set data"
    and "map_of word_to_id ''<eos>'' = Some (EOS_INDEX g')"
    and "map_of word_to_id ''<pad>'' = Some (PAD_INDEX g')"
proof -
  from assms show v: "word_to_id = word_ids (map fst (count_pairs data))"
    and "data \<noteq> []" and eos: "''<eos>'' \<in> set data" and pad: "''<pad>'' \<in> set data"
    by (auto simp: build_vocab_cases split: if_splits)
  from assms have g': "g' = g\<lparr>EOS_INDEX := the (map_of word_to_id ''<eos>''),
             PAD_INDEX := the (map_of word_to_id ''<pad>'')\<rparr>"
    by (auto simp: build_vocab_cases split: if_splits)
  from eos vocabulary_dom [of data "''<eos>''"] show "map_of word_to_id ''<eos>'' = Some (EOS_INDEX g')"
    by (auto simp: v g')
  from pad vocabulary_dom [of data "''<pad>''"] show "map_of word_to_id ''<pad>'' = Some (PAD_INDEX g')"
    by (auto simp: v g')
qed

lemma build_vocab_mset:
  assumes "mset data' = mset data"
  shows "build_vocab data' g = build_vocab data g"
proof -
  have "set data' = set data" using assms by (rule mset_eq_setD)
  moreover have "data' = [] \<longleftrightarrow> data = []" using assms by (metis mset_zero_iff)
  ultimately show ?thesis
    by (simp only: build_vocab_cases count_pairs_mset [OF assms])
qed

lemma build_vocab_succeeds_iff:
  "(\<exists>v g'. build_vocab data g = (Inr v, g')) \<longleftrightarrow> ''<eos>'' \<in> set data \<and> ''<pad>'' \<in> set data"
  by (auto simp: build_vocab_cases)

text \<open>The token sequence \<open>b a <eos> <pad> a <eos> <pad>\<close>: three tokens occur twice and are
  ordered by their strings.\<close>

lemma ex_count_pairs:
  "word_ids (map fst (count_pairs [''b'', ''a'', ''<eos>'', ''<pad>'', ''a'', ''<eos>'', ''<pad>''])) =
     [(''<eos>'', 0), (''<pad>'', 1), (''a'', 2), (''b'', 3)]"
  by code_simp

lemma ex_build_vocab:
  "build_vocab [''b'', ''a'', ''<eos>'', ''<pad>'', ''a'', ''<eos>'', ''<pad>''] module_globals =
     (Inr [(''<eos>'', 0), (''<pad>'', 1), (''a'', 2), (''b'', 3)], \<lparr>EOS_INDEX = 0, PAD_INDEX = 1\<rparr>)"
  by code_simp

text \<open>
  C1. Let \<open>word_to_id\<close> be the dictionary that \<open>build_vocab\<close> builds at line 46 from the
  sorted counts of a token sequence. It is what \<open>build_vocab\<close> returns whenever it
  returns, and it returns when both markers occur in the sequence. Its keys are the
  distinct tokens of the sequence; no two tokens share an id; the ids are exactly
  \<open>0, ..., N-1\<close> for \<open>N\<close> distinct tokens, without gap, the \<open>k\<close>-th entry having id \<open>k\<close>; a
  token has a smaller id than another exactly when it occurs more often, or as often and
  its string is the smaller one; so the token with id 0 is a most frequent one, and the
  least string among the most frequent ones; and a token sequence with the same multiset
  of tokens gives the same dictionary and the same result of \<open>build_vocab\<close>.
\<close>

theorem build_vocab_ids:
  assumes "word_to_id = word_ids (map fst (count_pairs data))"
  shows "(\<forall>g v g'. build_vocab data g = (Inr v, g') \<longrightarrow> v = word_to_id) \<and>
    (\<forall>g. ''<eos>'' \<in> set data \<and> ''<pad>'' \<in> set data \<longrightarrow>
       (\<exists>g'. build_vocab data g = (Inr word_to_id, g'))) \<and>
    distinct (map fst word_to_id) \<and>
    (\<forall>w. dict_contains w word_to_id \<longleftrightarrow> w \<in> set data) \<and>
    (\<forall>w1 w2 i. map_of word_to_id w1 = Some i \<and> map_of word_to_id w2 = Some i \<longrightarrow> w1 = w2) \<and>
    {i. \<exists>w. map_of word_to_id w = Some i} = {0..<int (card (set data))} \<and>
    map snd word_to_id = map int [0..<card (set data)] \<and>
    (\<forall>w1 w2 i1 i2. map_of word_to_id w1 = Some i1 \<and> map_of word_to_id w2 = Some i2 \<longrightarrow>
       (i1 < i2 \<longleftrightarrow> count_list data w2 < count_list data w1 \<or>
          (count_list data w1 = count_list data w2 \<and> w1 < w2))) \<and>
    (data \<noteq> [] \<longrightarrow>
       (\<exists>w0. map_of word_to_id w0 = Some 0 \<and>
          (\<forall>w \<in> set data. count_list data w \<le> count_list data w0 \<and>
             (count_list data w = count_list data w0 \<longrightarrow> w0 \<le> w)))) \<and>
    (\<forall>data' g. mset data' = mset data \<longrightarrow>
       word_ids (map fst (count_pairs data')) = word_to_id \<and>
       build_vocab data' g = build_vocab data g)"
proof -
  let ?cp = "count_pairs data"
  let ?N = "card (set data)"
  note v = assms
  have a: "\<forall>g v g'. build_vocab data g = (Inr v, g') \<longrightarrow> v = word_to_id"
    using build_vocab_Inr(1) v by blast
  have b: "\<forall>g. ''<eos>'' \<in> set data \<and> ''<pad>'' \<in> set data \<longrightarrow>
       (\<exists>g'. build_vocab data g = (Inr word_to_id, g'))"
    by (auto simp: build_vocab_cases v)
  have 1: "distinct (map fst word_to_id)"
    by (simp only: v vocabulary_keys distinct_count_pairs)
  have 2: "\<forall>w. dict_contains w word_to_id \<longleftrightarrow> w \<in> set data"
    by (simp add: dict_contains_def v vocabulary_dom)
  have 3: "\<forall>w1 w2 i. map_of word_to_id w1 = Some i \<and> map_of word_to_id w2 = Some i \<longrightarrow> w1 = w2"
    unfolding v vocabulary_lookup by auto
  have 4: "{i. \<exists>w. map_of word_to_id w = Some i} = {0..<int ?N}"
  proof (rule set_eqI)
    fix i
    have "(\<exists>k < ?N. i = int k) \<longleftrightarrow> 0 \<le> i \<and> i < int ?N"
    proof
      assume "\<exists>k < ?N. i = int k"
      then show "0 \<le> i \<and> i < int ?N" by auto
    next
      assume "0 \<le> i \<and> i < int ?N"
      then have "nat i < ?N \<and> i = int (nat i)" by auto
      then show "\<exists>k < ?N. i = int k" by blast
    qed
    moreover have "(\<exists>w. map_of word_to_id w = Some i) \<longleftrightarrow> (\<exists>k < ?N. i = int k)"
      unfolding v vocabulary_lookup by blast
    ultimately show "i \<in> {i. \<exists>w. map_of word_to_id w = Some i} \<longleftrightarrow> i \<in> {0..<int ?N}"
      by simp
  qed
  have 5: "map snd word_to_id = map int [0..<?N]"
    by (simp only: v vocabulary_ids)
  have 6: "\<forall>w1 w2 i1 i2. map_of word_to_id w1 = Some i1 \<and> map_of word_to_id w2 = Some i2 \<longrightarrow>
       (i1 < i2 \<longleftrightarrow> count_list data w2 < count_list data w1 \<or>
          (count_list data w1 = count_list data w2 \<and> w1 < w2))"
    unfolding v using vocabulary_order by blast
  have 7: "data \<noteq> [] \<longrightarrow> (\<exists>w0. map_of word_to_id w0 = Some 0 \<and>
       (\<forall>w \<in> set data. count_list data w \<le> count_list data w0 \<and>
          (count_list data w = count_list data w0 \<longrightarrow> w0 \<le> w)))"
  proof
    assume ne: "data \<noteq> []"
    have N: "0 < ?N" using ne by (simp add: card_gt_0_iff)
    define w0 where "w0 = fst (?cp ! 0)"
    have w0: "map_of word_to_id w0 = Some 0"
      unfolding v vocabulary_lookup using N by (intro exI [of _ 0]) (simp add: w0_def)
    have "count_list data w \<le> count_list data w0 \<and>
          (count_list data w = count_list data w0 \<longrightarrow> w0 \<le> w)" if "w \<in> set data" for w
    proof -
      from that 2 obtain i where i: "map_of word_to_id w = Some i"
        by (auto simp: dict_contains_def)
      then have "0 \<le> i" unfolding v vocabulary_lookup by auto
      then have "\<not> i < 0" by simp
      with 6 i w0 have "\<not> (count_list data w0 < count_list data w \<or>
          (count_list data w = count_list data w0 \<and> w < w0))" by blast
      then show ?thesis by auto
    qed
    with w0 show "\<exists>w0. map_of word_to_id w0 = Some 0 \<and>
       (\<forall>w \<in> set data. count_list data w \<le> count_list data w0 \<and>
          (count_list data w = count_list data w0 \<longrightarrow> w0 \<le> w))" by blast
  qed
  have 8: "\<forall>data' g. mset data' = mset data \<longrightarrow>
       word_ids (map fst (count_pairs data')) = word_to_id \<and>
       build_vocab data' g = build_vocab data g"
  proof (intro allI impI conjI)
    fix data' :: "string list" and g
    assume m: "mset data' = mset data"
    show "word_ids (map fst (count_pairs data')) = word_to_id"
      by (simp only: count_pairs_mset [OF m] v)
    show "build_vocab data' g = build_vocab data g"
      using m by (rule build_vocab_mset)
  qed
  show ?thesis by (intro conjI a b 1 2 3 4 5 6 7 8)
qed

theorem build_vocab_ids_witness:
  "[(''<eos>'', 0), (''<pad>'', 1), (''a'', 2), (''b'', 3)] =
     word_ids (map fst (count_pairs [''b'', ''a'', ''<eos>'', ''<pad>'', ''a'', ''<eos>'', ''<pad>''])) \<and>
   build_vocab [''b'', ''a'', ''<eos>'', ''<pad>'', ''a'', ''<eos>'', ''<pad>''] module_globals =
     (Inr [(''<eos>'', 0), (''<pad>'', 1), (''a'', 2), (''b'', 3)], \<lparr>EOS_INDEX = 0, PAD_INDEX = 1\<rparr>) \<and>
   map snd [(''<eos>'', 0), (''<pad>'', 1), (''a'', 2), (''b'', 3 :: int)] =
     map int [0..<card (set [''b'', ''a'', ''<eos>'', ''<pad>'', ''a'', ''<eos>'', ''<pad>''])] \<and>
   build_vocab (rev [''b'', ''a'', ''<eos>'', ''<pad>'', ''a'', ''<eos>'', ''<pad>'']) module_globals =
     build_vocab [''b'', ''a'', ''<eos>'', ''<pad>'', ''a'', ''<eos>'', ''<pad>''] module_globals"
proof -
  note h = ex_count_pairs [symmetric]
  note t = build_vocab_ids [OF h]
  have ids: "map snd [(''<eos>'', 0), (''<pad>'', 1), (''a'', 2), (''b'', 3 :: int)] =
     map int [0..<card (set [''b'', ''a'', ''<eos>'', ''<pad>'', ''a'', ''<eos>'', ''<pad>''])]"
    using t by blast
  have "mset (rev [''b'', ''a'', ''<eos>'', ''<pad>'', ''a'', ''<eos>'', ''<pad>'']) =
      mset [''b'', ''a'', ''<eos>'', ''<pad>'', ''a'', ''<eos>'', ''<pad>'']"
    by (rule mset_rev)
  with t have perm: "build_vocab (rev [''b'', ''a'', ''<eos>'', ''<pad>'', ''a'', ''<eos>'', ''<pad>'']) module_globals =
     build_vocab [''b'', ''a'', ''<eos>'', ''<pad>'', ''a'', ''<eos>'', ''<pad>''] module_globals"
    by blast
  show ?thesis by (intro conjI h ex_build_vocab ids perm)
qed

subsection \<open>The empty corpus\<close>

text \<open>
  C9 (as the code has it). On the empty token sequence \<open>build_vocab\<close> raises: the
  sorted list of counts is empty, and unpacking its transposition into two names at line 45
  raises \<open>ValueError\<close>, before either marker is looked up. No vocabulary is returned and
  the module variables \<open>EOS_INDEX\<close> and \<open>PAD_INDEX\<close> keep their values.
\<close>

theorem build_vocab_empty: "build_vocab [] g = (Inl ValueError, g)"
  by (simp add: build_vocab_def count_pairs_def Counter_def unzip_pairs_def)

text \<open>
  C9 (as stated) fails: the exception raised on the empty corpus is \<open>ValueError\<close>, not
  the \<open>KeyError\<close> of a missing marker, neither for the end-of-sequence marker nor for the
  pad marker.
\<close>

theorem build_vocab_empty_not_missing_marker:
  "build_vocab [] module_globals = (Inl ValueError, module_globals) \<and>
   ValueError \<noteq> KeyError ''<eos>'' \<and> ValueError \<noteq> KeyError ''<pad>''"
  by (simp add: build_vocab_def count_pairs_def Counter_def unzip_pairs_def)

section \<open>Encoding\<close>

text \<open>The list comprehension never raises: the lookup is guarded by the membership test.
  Its value is the list of the ids of the tokens that the vocabulary holds.\<close>

lemma file_to_word_ids_eq:
  "file_to_word_ids data word_to_id =
     Inr (map (\<lambda>w. the (map_of word_to_id w)) (filter (\<lambda>w. dict_contains w word_to_id) data))"
  by (induction data) (auto simp: dict_contains_def dict_getitem_def split: option.splits)

text \<open>
  C7. For every token sequence and every vocabulary, encoding raises no error; the id
  stream is, in order, the ids of the tokens that are in the vocabulary (no placeholder
  stands for a token that is not); every id of the output is the id of a token of the
  sequence, so a dropped token, which has no id, contributes nothing; the stream has one
  entry less for each out-of-vocabulary token, and is strictly shorter than the token
  sequence as soon as one token is out of the vocabulary.
\<close>

theorem file_to_word_ids_drops_oov:
  "\<exists>ids. file_to_word_ids data word_to_id = Inr ids \<and>
     map Some ids = map (map_of word_to_id) (filter (\<lambda>w. dict_contains w word_to_id) data) \<and>
     (\<forall>i \<in> set ids. \<exists>w \<in> set data. map_of word_to_id w = Some i) \<and>
     length ids = length data - length (filter (\<lambda>w. \<not> dict_contains w word_to_id) data) \<and>
     ((\<exists>w \<in> set data. \<not> dict_contains w word_to_id) \<longrightarrow> length ids < length data)"
proof -
  let ?ids = "map (\<lambda>w. the (map_of word_to_id w)) (filter (\<lambda>w. dict_contains w word_to_id) data)"
  have 1: "map Some ?ids = map (map_of word_to_id) (filter (\<lambda>w. dict_contains w word_to_id) data)"
    by (auto simp: dict_contains_def)
  have 2: "\<forall>i \<in> set ?ids. \<exists>w \<in> set data. map_of word_to_id w = Some i"
    by (auto simp: dict_contains_def)
  have 3: "length ?ids = length data - length (filter (\<lambda>w. \<not> dict_contains w word_to_id) data)"
    using sum_length_filter_compl [of "\<lambda>w. dict_contains w word_to_id" data] by simp
  have 4: "(\<exists>w \<in> set data. \<not> dict_contains w word_to_id) \<longrightarrow> length ?ids < length data"
    using length_filter_less [of _ data "\<lambda>w. dict_contains w word_to_id"] by auto
  show ?thesis using file_to_word_ids_eq 1 2 3 4 by blast
qed

text \<open>The token \<open>zebra\<close> is not in the vocabulary: three ids come out of four tokens.\<close>

theorem file_to_word_ids_drops_oov_witness:
  "(\<exists>w \<in> set [''a'', ''zebra'', ''<eos>'', ''a'']. \<not> dict_contains w [(''<eos>'', 0), (''a'', 1)]) \<and>
   file_to_word_ids [''a'', ''zebra'', ''<eos>'', ''a''] [(''<eos>'', 0), (''a'', 1)] = Inr [1, 0, 1] \<and>
   (\<exists>ids. file_to_word_ids [''a'', ''zebra'', ''<eos>'', ''a''] [(''<eos>'', 0), (''a'', 1)] = Inr ids \<and>
      length ids < length [''a'', ''zebra'', ''<eos>'', ''a''])"
  using file_to_word_ids_drops_oov [of "[''a'', ''zebra'', ''<eos>'', ''a'']" "[(''<eos>'', 0), (''a'', 1)]"]
  by (simp add: dict_contains_def dict_getitem_def)

text \<open>
  C8. Round trip: when every token of the sequence is in the vocabulary, encoding keeps
  every token, and mapping each id back through an inverse of the vocabulary (any function
  that sends the id of each word of the vocabulary back to the word) gives the token
  sequence again, element for element.
\<close>

theorem file_to_word_ids_roundtrip:
  assumes "\<And>w i. map_of word_to_id w = Some i \<Longrightarrow> id_to_word i = w"
    and "\<forall>w \<in> set data. dict_contains w word_to_id"
  shows "\<exists>ids. file_to_word_ids data word_to_id = Inr ids \<and> length ids = length data \<and>
    map id_to_word ids = data"
proof -
  have "filter (\<lambda>w. dict_contains w word_to_id) data = data" using assms(2) by simp
  moreover have "map id_to_word (map (\<lambda>w. the (map_of word_to_id w)) data) = data"
    using assms by (auto simp: dict_contains_def map_idI)
  ultimately show ?thesis using file_to_word_ids_eq [of data word_to_id] by simp
qed

text \<open>The vocabulary of a small corpus, as \<open>build_vocab\<close> returns it, and its inverse.\<close>

theorem file_to_word_ids_roundtrip_witness:
  "fst (build_vocab [''b'', ''<eos>'', ''<pad>'', ''a'', ''<eos>'', ''<pad>''] module_globals) =
     Inr [(''<eos>'', 0), (''<pad>'', 1), (''a'', 2), (''b'', 3)] \<and>
   (\<exists>ids. file_to_word_ids [''a'', ''b'', ''b'', ''<eos>'']
            [(''<eos>'', 0), (''<pad>'', 1), (''a'', 2), (''b'', 3)] = Inr ids \<and>
      length ids = length [''a'', ''b'', ''b'', ''<eos>''] \<and>
      map (\<lambda>i. [''<eos>'', ''<pad>'', ''a'', ''b''] ! nat i) ids = [''a'', ''b'', ''b'', ''<eos>''])"
proof -
  have inv: "\<And>w i. map_of [(''<eos>'', 0), (''<pad>'', 1), (''a'', 2), (''b'', 3)] w = Some i \<Longrightarrow>
     [''<eos>'', ''<pad>'', ''a'', ''b''] ! nat i = w" for w :: string and i :: int
    by (auto split: if_splits)
  have mem: "\<forall>w \<in> set [''a'', ''b'', ''b'', ''<eos>''].
      dict_contains w [(''<eos>'', 0), (''<pad>'', 1), (''a'', 2), (''b'', 3)]"
    by (simp add: dict_contains_def)
  have voc: "fst (build_vocab [''b'', ''<eos>'', ''<pad>'', ''a'', ''<eos>'', ''<pad>''] module_globals) =
     Inr [(''<eos>'', 0), (''<pad>'', 1), (''a'', 2), (''b'', 3)]"
    by code_simp
  show ?thesis
    by (intro conjI voc file_to_word_ids_roundtrip
        [of "[(''<eos>'', 0), (''<pad>'', 1), (''a'', 2), (''b'', 3)]"
            "\<lambda>i. [''<eos>'', ''<pad>'', ''a'', ''b''] ! nat i" "[''a'', ''b'', ''b'', ''<eos>'']",
         OF inv mem])
qed

section \<open>Batching\<close>

subsection \<open>The sentences\<close>

text \<open>There is one sentence more than there are end-of-sequence ids in the stream (the last
  one is what follows the last end-of-sequence id, and may be empty), and the sentences
  put together are the stream.\<close>

lemma length_np_split_from: "length (np_split_from a st indices) = Suc (length indices)"
  by (induction indices arbitrary: st) simp_all

lemma concat_np_split_from:
  "sorted (st # indices) \<Longrightarrow> concat (np_split_from a st indices) = drop st a"
proof (induction indices arbitrary: st)
  case Nil
  then show ?case by simp
next
  case (Cons e indices)
  then have "st \<le> e" and "sorted (e # indices)" by simp_all
  have "take (e - st) (drop st a) @ drop e a = drop st a"
    using \<open>st \<le> e\<close> by (metis append_take_drop_id drop_drop le_add_diff_inverse2)
  with Cons.IH [OF \<open>sorted (e # indices)\<close>] show ?case by simp
qed

lemma sorted_np_where_eq: "sorted (np_where_eq a v)"
  by (simp add: np_where_eq_def sorted_wrt_filter)

lemma length_split_sentences:
  "length (split_sentences g raw) = Suc (length (filter (\<lambda>x. sint x = EOS_INDEX g) raw))"
proof -
  have "length (filter (\<lambda>i. sint (raw ! i) = EOS_INDEX g) [0..<length raw]) =
      length (filter (\<lambda>x. sint x = EOS_INDEX g) (map ((!) raw) [0..<length raw]))"
    by (simp add: filter_map comp_def)
  then show ?thesis
    by (simp add: split_sentences_def np_split_def length_np_split_from np_where_eq_def map_nth)
qed

lemma concat_split_sentences: "concat (split_sentences g raw) = raw"
proof -
  have "sorted (map Suc (np_where_eq raw (EOS_INDEX g)))"
    using sorted_np_where_eq [of raw "EOS_INDEX g"]
    by (simp add: sorted_map)
  then have "sorted (0 # map Suc (np_where_eq raw (EOS_INDEX g)))"
    by simp
  then show ?thesis
    by (simp add: split_sentences_def np_split_def concat_np_split_from)
qed

subsection \<open>The padded sentence matrix\<close>

text \<open>The conversion to \<open>np.int32\<close> keeps an integer of the 32-bit range, so the entries of
  the arrays read back (\<open>sint\<close>) as the ids that went in.\<close>

lemma sint_np_int32:
  "- (2 ^ 31) \<le> n \<Longrightarrow> n < 2 ^ 31 \<Longrightarrow> sint (np_int32 n) = n"
  unfolding np_int32_def by (simp add: sint_sbintrunc' signed_take_bit_int_eq_self)

lemma np_full_ok:
  "0 \<le> cols \<Longrightarrow> np_full (int n) cols v = Inr (replicate n (replicate (nat cols) (np_int32 v)))"
  by (simp add: np_full_def)

lemma np_full_negative: "cols < 0 \<Longrightarrow> np_full rows cols v = Inl ValueError"
  by (simp add: np_full_def)

lemma copy_sentence_length [simp]: "length (copy_sentence L sentences data i) = length data"
  by (simp add: copy_sentence_def Let_def)

lemma foldl_copy_sentence_length [simp]:
  "length (foldl (copy_sentence L sentences) data is) = length data"
  by (induction "is" arbitrary: data) simp_all

lemma copy_sentence_nth:
  "i < length data \<Longrightarrow> copy_sentence L sentences data k ! i =
     (if i = k then take (nat (L + 1)) (sentences ! k) @
        drop (length (take (nat (L + 1)) (sentences ! k))) (data ! k)
      else data ! i)"
  by (simp add: copy_sentence_def Let_def nth_list_update)

lemma foldl_copy_sentence_nth:
  assumes "k \<le> length data" "i < length data"
  shows "foldl (copy_sentence L sentences) data [0..<k] ! i =
    (if i < k then take (nat (L + 1)) (sentences ! i) @
        drop (length (take (nat (L + 1)) (sentences ! i))) (data ! i)
     else data ! i)"
  using assms
proof (induction k)
  case 0
  then show ?case by simp
next
  case (Suc k)
  have "foldl (copy_sentence L sentences) data [0..<Suc k] ! i =
      copy_sentence L sentences (foldl (copy_sentence L sentences) data [0..<k]) k ! i"
    by simp
  also have "\<dots> = (if i = k then take (nat (L + 1)) (sentences ! k) @
        drop (length (take (nat (L + 1)) (sentences ! k)))
          (foldl (copy_sentence L sentences) data [0..<k] ! k)
      else foldl (copy_sentence L sentences) data [0..<k] ! i)"
    using Suc.prems by (simp add: copy_sentence_nth)
  finally show ?case using Suc by (auto simp: less_Suc_eq)
qed

lemma pad_sentences_ok:
  assumes "0 \<le> L + 1"
  shows "pad_sentences g sentences L =
    Inr (map (\<lambda>s. take (nat (L + 1)) s @
           replicate (nat (L + 1) - length s) (np_int32 (PAD_INDEX g))) sentences)"
proof -
  let ?w = "nat (L + 1)"
  let ?pad = "np_int32 (PAD_INDEX g)"
  let ?data0 = "replicate (length sentences) (replicate ?w ?pad)"
  have "foldl (copy_sentence L sentences) ?data0 [0..<length sentences] =
    map (\<lambda>s. take ?w s @ replicate (?w - length s) ?pad) sentences"
    by (rule nth_equalityI) (simp_all add: foldl_copy_sentence_nth min_def)
  then show ?thesis using assms by (simp add: pad_sentences_def np_full_ok Let_def)
qed

lemma pad_sentences_negative: "L + 1 < 0 \<Longrightarrow> pad_sentences g sentences L = Inl ValueError"
  by (simp add: pad_sentences_def np_full_negative Let_def)

subsection \<open>The batches\<close>

lemma pad_sentences_shape:
  assumes "pad_sentences g sentences L = Inr data"
  shows "0 \<le> L + 1" "length data = length sentences" "\<forall>row \<in> set data. length row = nat (L + 1)"
proof -
  show 0: "0 \<le> L + 1"
    using assms by (cases "0 \<le> L + 1") (simp_all add: pad_sentences_negative)
  from pad_sentences_ok [OF 0, of g sentences] assms
  have d: "data = map (\<lambda>s. take (nat (L + 1)) s @
           replicate (nat (L + 1) - length s) (np_int32 (PAD_INDEX g))) sentences" by simp
  show "length data = length sentences" by (simp add: d)
  show "\<forall>row \<in> set data. length row = nat (L + 1)" by (auto simp: d)
qed

lemma make_batch_rows:
  assumes "1 \<le> batch_size"
  shows "make_batch data batch_size i =
    (map butlast (take (nat batch_size) (drop (i * nat batch_size) data)),
     map tl (take (nat batch_size) (drop (i * nat batch_size) data)),
     map (map (\<lambda>_. 1)) (map butlast (take (nat batch_size) (drop (i * nat batch_size) data))))"
proof -
  have lo: "nat (int i * batch_size) = i * nat batch_size"
    using assms by (simp add: nat_mult_distrib)
  have hi: "nat ((int i + 1) * batch_size) = (i + 1) * nat batch_size"
    using assms by (simp add: nat_mult_distrib nat_add_distrib)
  show ?thesis by (simp add: make_batch_def Let_def lo hi)
qed

lemma epoch_size_nat:
  assumes "1 \<le> batch_size"
  shows "nat (int n div batch_size) = n div nat batch_size"
  using assms by (metis nat_int zdiv_int int_nat_eq order_trans zero_le_one)

lemma ptb_iterator_ok:
  assumes "1 \<le> batch_size" "0 \<le> sequence_length + 1" "\<not> truthy epoch_size_override"
  shows "ptb_iterator g raw_data batch_size sequence_length epoch_size_override =
    Inr (map (make_batch
          (map (\<lambda>s. take (nat (sequence_length + 1)) s @
             replicate (nat (sequence_length + 1) - length s) (np_int32 (PAD_INDEX g)))
             (split_sentences g (map np_int32 raw_data))) batch_size)
         [0..<length (split_sentences g (map np_int32 raw_data)) div nat batch_size])"
  using assms by (simp add: ptb_iterator_def Let_def pad_sentences_ok epoch_size_nat)

lemma concat_blocks:
  "concat (map (\<lambda>i. take b (drop (i * b) xs)) [0..<k]) = take (k * b) xs"
proof (induction k)
  case 0
  then show ?case by simp
next
  case (Suc k)
  have "take (k * b) xs @ take b (drop (k * b) xs) = take (k * b + b) xs"
    by (simp add: take_add)
  then show ?case using Suc by (simp add: add.commute)
qed

lemma map_const_replicate:
  assumes "length xs = n" and "\<forall>x \<in> set xs. f x = c"
  shows "map f xs = replicate n c"
  using assms by (intro nth_equalityI) simp_all

lemma ptb_iterator_Inr:
  assumes "1 \<le> batch_size"
    and "ptb_iterator g raw_data batch_size sequence_length epoch_size_override = Inr batches"
  shows "\<exists>data. pad_sentences g (split_sentences g (map np_int32 raw_data)) sequence_length = Inr data \<and>
    batches = map (make_batch data batch_size)
      [0..<length (split_sentences g (map np_int32 raw_data)) div nat batch_size]"
  using assms
  by (auto simp: ptb_iterator_def Let_def epoch_size_nat split: sum.splits if_splits)

text \<open>A stream of three sentences, of lengths 3, 5 and 1, under the marker ids 0 and 1
  that \<open>build_vocab\<close> assigns when both markers are the most frequent tokens.\<close>

lemma ex_sentences:
  "split_sentences \<lparr>EOS_INDEX = 0, PAD_INDEX = 1\<rparr> (map np_int32 [2, 3, 0, 1, 4, 5, 6, 0, 1]) =
     [[2, 3, 0], [1, 4, 5, 6, 0], [1]]"
  by code_simp

lemma ex_pad:
  "pad_sentences \<lparr>EOS_INDEX = 0, PAD_INDEX = 1\<rparr> [[2, 3, 0], [1, 4, 5, 6, 0], [1]] 2 =
     Inr [[2, 3, 0], [1, 4, 5], [1, 1, 1]]"
  by code_simp

lemma ex_iter:
  "ptb_iterator \<lparr>EOS_INDEX = 0, PAD_INDEX = 1\<rparr> [2, 3, 0, 1, 4, 5, 6, 0, 1] 2 2 None =
     Inr [([[2, 3], [1, 4]], [[3, 0], [4, 5]], [[1, 1], [1, 1]])]"
  by code_simp

text \<open>
  C4. For every id stream, cut into sentences at line 109, and every sequence length
  \<open>L \<ge> 1\<close>, the padded sentence matrix is built without error, has one row per sentence
  and \<open>L+1\<close> columns; row \<open>i\<close> starts with the first \<open>min (len sentence_i) (L+1)\<close> ids of
  sentence \<open>i\<close>, in order (a longer sentence is cut), and every entry of the row past the
  end of the sentence is the pad id (as \<open>np.int32\<close>).
\<close>

theorem pad_sentences_matrix:
  assumes "1 \<le> sequence_length"
  shows "\<exists>data. pad_sentences g (split_sentences g (map np_int32 raw_data)) sequence_length = Inr data \<and>
    length data = length (split_sentences g (map np_int32 raw_data)) \<and>
    (\<forall>i < length data.
       length (data ! i) = nat (sequence_length + 1) \<and>
       take (min (length (split_sentences g (map np_int32 raw_data) ! i)) (nat (sequence_length + 1))) (data ! i) =
         take (nat (sequence_length + 1)) (split_sentences g (map np_int32 raw_data) ! i) \<and>
       (\<forall>j. length (split_sentences g (map np_int32 raw_data) ! i) \<le> j \<and> j < nat (sequence_length + 1) \<longrightarrow>
          data ! i ! j = np_int32 (PAD_INDEX g)))"
proof -
  let ?sentences = "split_sentences g (map np_int32 raw_data)"
  let ?w = "nat (sequence_length + 1)"
  let ?data = "map (\<lambda>s. take ?w s @ replicate (?w - length s) (np_int32 (PAD_INDEX g))) ?sentences"
  have ok: "pad_sentences g ?sentences sequence_length = Inr ?data"
    using assms by (intro pad_sentences_ok) simp
  have rows: "length (?data ! i) = ?w \<and>
       take (min (length (?sentences ! i)) ?w) (?data ! i) = take ?w (?sentences ! i) \<and>
       (\<forall>j. length (?sentences ! i) \<le> j \<and> j < ?w \<longrightarrow> ?data ! i ! j = np_int32 (PAD_INDEX g))"
    if "i < length ?data" for i
  proof -
    let ?s = "?sentences ! i"
    have row: "?data ! i = take ?w ?s @ replicate (?w - length ?s) (np_int32 (PAD_INDEX g))"
      using that by simp
    have 1: "length (?data ! i) = ?w" unfolding row by auto
    have 2: "take (min (length ?s) ?w) (?data ! i) = take ?w ?s" unfolding row by (simp add: min_def)
    have 3: "\<forall>j. length ?s \<le> j \<and> j < ?w \<longrightarrow> ?data ! i ! j = np_int32 (PAD_INDEX g)"
      unfolding row by (auto simp: nth_append)
    show ?thesis using 1 2 3 by blast
  qed
  show ?thesis using ok rows by (intro exI [of _ ?data]) simp
qed

text \<open>The second sentence is cut to three ids, the third is padded with the pad id 1.\<close>

theorem pad_sentences_matrix_witness:
  "(1::int) \<le> 2 \<and>
   split_sentences \<lparr>EOS_INDEX = 0, PAD_INDEX = 1\<rparr> (map np_int32 [2, 3, 0, 1, 4, 5, 6, 0, 1]) =
     [[2, 3, 0], [1, 4, 5, 6, 0], [1]] \<and>
   pad_sentences \<lparr>EOS_INDEX = 0, PAD_INDEX = 1\<rparr> [[2, 3, 0], [1, 4, 5, 6, 0], [1]] 2 =
     Inr [[2, 3, 0], [1, 4, 5], [1, 1, 1]] \<and>
   length [[2, 3, 0], [1, 4, 5], [1, 1, 1 :: int32]] =
     length (split_sentences \<lparr>EOS_INDEX = 0, PAD_INDEX = 1\<rparr> (map np_int32 [2, 3, 0, 1, 4, 5, 6, 0, 1]))"
proof -
  have L: "(1::int) \<le> 2" by simp
  from pad_sentences_matrix [OF L, of "\<lparr>EOS_INDEX = 0, PAD_INDEX = 1\<rparr>" "[2, 3, 0, 1, 4, 5, 6, 0, 1]"]
  obtain data where
    "pad_sentences \<lparr>EOS_INDEX = 0, PAD_INDEX = 1\<rparr>
       (split_sentences \<lparr>EOS_INDEX = 0, PAD_INDEX = 1\<rparr> (map np_int32 [2, 3, 0, 1, 4, 5, 6, 0, 1])) 2 = Inr data"
    "length data = length (split_sentences \<lparr>EOS_INDEX = 0, PAD_INDEX = 1\<rparr> (map np_int32 [2, 3, 0, 1, 4, 5, 6, 0, 1]))"
    by blast
  then have "length [[2, 3, 0], [1, 4, 5], [1, 1, 1 :: int32]] =
     length (split_sentences \<lparr>EOS_INDEX = 0, PAD_INDEX = 1\<rparr> (map np_int32 [2, 3, 0, 1, 4, 5, 6, 0, 1]))"
    by (simp only: ex_sentences ex_pad sum.inject)
  then show ?thesis using L ex_sentences ex_pad by blast
qed

text \<open>
  C10 (as the code has it). A sentence of length exactly \<open>sequence_length+1\<close> fills its
  row: the row is the sentence, no padding entry is added, and the pad id occurs in the row
  exactly when it occurs in the sentence itself.
\<close>

theorem pad_sentences_full_row:
  assumes "1 \<le> sequence_length"
    and "i < length sentences"
    and "length (sentences ! i) = nat (sequence_length + 1)"
  shows "\<exists>data. pad_sentences g sentences sequence_length = Inr data \<and> data ! i = sentences ! i \<and>
    (np_int32 (PAD_INDEX g) \<in> set (data ! i) \<longleftrightarrow> np_int32 (PAD_INDEX g) \<in> set (sentences ! i))"
  using assms by (simp add: pad_sentences_ok)

theorem pad_sentences_full_row_witness:
  "(1::int) \<le> 2 \<and> (0::nat) < length [[2, 3, 0], [1, 4, 5, 6, 0], [1 :: int32]] \<and>
   length ([[2, 3, 0], [1, 4, 5, 6, 0], [1 :: int32]] ! 0) = nat (2 + 1) \<and>
   (\<exists>data. pad_sentences \<lparr>EOS_INDEX = 0, PAD_INDEX = 1\<rparr> [[2, 3, 0], [1, 4, 5, 6, 0], [1]] 2 = Inr data \<and>
      data ! 0 = [[2, 3, 0], [1, 4, 5, 6, 0], [1]] ! 0 \<and>
      (np_int32 (PAD_INDEX \<lparr>EOS_INDEX = 0, PAD_INDEX = 1\<rparr>) \<in> set (data ! 0) \<longleftrightarrow>
       np_int32 (PAD_INDEX \<lparr>EOS_INDEX = 0, PAD_INDEX = 1\<rparr>) \<in> set ([[2, 3, 0], [1, 4, 5, 6, 0], [1]] ! 0)))"
proof -
  have L: "(1::int) \<le> 2" by simp
  have i: "(0::nat) < length [[2, 3, 0], [1, 4, 5, 6, 0], [1 :: int32]]" by simp
  have full: "length ([[2, 3, 0], [1, 4, 5, 6, 0], [1 :: int32]] ! 0) = nat (2 + 1)" by simp
  show ?thesis
    by (intro conjI L i full pad_sentences_full_row [OF L i full])
qed

text \<open>
  C10 (as stated) fails: a sentence can hold the pad id itself. The token sequence
  \<open>a <eos> <pad> b <eos> <pad>\<close> has the id stream \<open>[2, 0, 1, 3, 0, 1]\<close> (ids:
  end-of-sequence marker 0, pad marker 1, \<open>a\<close> 2, \<open>b\<close> 3). The pad marker after the first
  end-of-sequence marker opens the second sentence, \<open>[1, 3, 0]\<close>, which has the length
  \<open>sequence_length+1\<close> for \<open>sequence_length = 2\<close>, and its row holds the pad id 1.
\<close>

theorem pad_sentences_full_row_has_pad:
  "split_sentences \<lparr>EOS_INDEX = 0, PAD_INDEX = 1\<rparr> (map np_int32 [2, 0, 1, 3, 0, 1]) = [[2, 0], [1, 3, 0], [1]] \<and>
   length ([[2, 0], [1, 3, 0], [1 :: int32]] ! 1) = nat (2 + 1) \<and>
   pad_sentences \<lparr>EOS_INDEX = 0, PAD_INDEX = 1\<rparr> [[2, 0], [1, 3, 0], [1]] 2 = Inr [[2, 0, 1], [1, 3, 0], [1, 1, 1]] \<and>
   np_int32 (PAD_INDEX \<lparr>EOS_INDEX = 0, PAD_INDEX = 1\<rparr>) \<in> set ([[2, 0, 1], [1, 3, 0], [1, 1, 1]] ! 1)"
  by code_simp

text \<open>The matrix is allocated at line 113, before the override is tested at line 118: when
  the allocation raises, its exception is the one of the iteration.\<close>

lemma ptb_iterator_negative_columns:
  "ptb_iterator module_globals [] 1 (- 2) (Some 1) = Inl ValueError"
  by (simp add: ptb_iterator_def Let_def pad_sentences_negative)




text \<open>
  C3. For every id stream, every \<open>batch_size \<ge> 1\<close> and \<open>sequence_length \<ge> 1\<close>, with no
  epoch-size override, the iteration raises no error and yields exactly
  \<open>num_sentences div batch_size\<close> batches; batch \<open>i\<close> is cut from the \<open>batch_size\<close> rows
  \<open>[i * batch_size, (i+1) * batch_size)\<close> of the padded matrix, all of which exist; the
  batches in order cover the first \<open>(num_sentences div batch_size) * batch_size\<close> rows, so
  the remaining rows are in no batch; with fewer sentences than \<open>batch_size\<close> there is no
  batch.
\<close>

theorem ptb_iterator_blocks:
  assumes "1 \<le> batch_size" and "1 \<le> sequence_length"
  shows "\<exists>batches data.
    ptb_iterator g raw_data batch_size sequence_length None = Inr batches \<and>
    pad_sentences g (split_sentences g (map np_int32 raw_data)) sequence_length = Inr data \<and>
    length batches = length (split_sentences g (map np_int32 raw_data)) div nat batch_size \<and>
    (\<forall>i < length batches.
       (i + 1) * nat batch_size \<le> length data \<and>
       length (take (nat batch_size) (drop (i * nat batch_size) data)) = nat batch_size \<and>
       fst (batches ! i) = map butlast (take (nat batch_size) (drop (i * nat batch_size) data)) \<and>
       fst (snd (batches ! i)) = map tl (take (nat batch_size) (drop (i * nat batch_size) data))) \<and>
    concat (map fst batches) = map butlast (take (length batches * nat batch_size) data) \<and>
    concat (map (fst \<circ> snd) batches) = map tl (take (length batches * nat batch_size) data) \<and>
    (length (split_sentences g (map np_int32 raw_data)) < nat batch_size \<longrightarrow> batches = [])"
proof -
  let ?sentences = "split_sentences g (map np_int32 raw_data)"
  let ?n = "length ?sentences"
  let ?b = "nat batch_size"
  let ?data = "map (\<lambda>s. take (nat (sequence_length + 1)) s @
             replicate (nat (sequence_length + 1) - length s) (np_int32 (PAD_INDEX g))) ?sentences"
  let ?batches = "map (make_batch ?data batch_size) [0..<?n div ?b]"
  have b: "0 < ?b" using assms(1) by simp
  have it: "ptb_iterator g raw_data batch_size sequence_length None = Inr ?batches"
    using assms by (intro ptb_iterator_ok) (simp_all add: truthy_def)
  have pad: "pad_sentences g ?sentences sequence_length = Inr ?data"
    using assms by (intro pad_sentences_ok) simp
  have len: "length ?batches = ?n div ?b" by simp
  have blocks: "(i + 1) * ?b \<le> length ?data \<and>
       length (take ?b (drop (i * ?b) ?data)) = ?b \<and>
       fst (?batches ! i) = map butlast (take ?b (drop (i * ?b) ?data)) \<and>
       fst (snd (?batches ! i)) = map tl (take ?b (drop (i * ?b) ?data))"
    if "i < length ?batches" for i
  proof -
    have i: "i < ?n div ?b" using that by simp
    then have "i + 1 \<le> ?n div ?b" by simp
    then have "(i + 1) * ?b \<le> (?n div ?b) * ?b" by (rule mult_le_mono1)
    also have "\<dots> \<le> ?n" by simp
    finally have bound: "(i + 1) * ?b \<le> ?n" .
    then have "?b \<le> ?n - i * ?b" by simp
    then have l: "length (take ?b (drop (i * ?b) ?data)) = ?b" by simp
    have m: "?batches ! i = make_batch ?data batch_size i" using i by simp
    show ?thesis using bound l
      by (simp only: m make_batch_rows [OF assms(1)] fst_conv snd_conv length_map)
  qed
  have "map fst ?batches = map (\<lambda>i. map butlast (take ?b (drop (i * ?b) ?data))) [0..<?n div ?b]"
    by (simp add: make_batch_rows [OF assms(1)])
  also have "concat \<dots> = map butlast (concat (map (\<lambda>i. take ?b (drop (i * ?b) ?data)) [0..<?n div ?b]))"
    by (simp add: map_concat comp_def)
  finally have cx: "concat (map fst ?batches) = map butlast (take (length ?batches * ?b) ?data)"
    by (simp only: concat_blocks len)
  have "map (fst \<circ> snd) ?batches = map (\<lambda>i. map tl (take ?b (drop (i * ?b) ?data))) [0..<?n div ?b]"
    by (simp add: make_batch_rows [OF assms(1)])
  also have "concat \<dots> = map tl (concat (map (\<lambda>i. take ?b (drop (i * ?b) ?data)) [0..<?n div ?b]))"
    by (simp add: map_concat comp_def)
  finally have cy: "concat (map (fst \<circ> snd) ?batches) = map tl (take (length ?batches * ?b) ?data)"
    by (simp only: concat_blocks len)
  have none: "?n < ?b \<longrightarrow> ?batches = []" by simp
  show ?thesis using it pad len blocks cx cy none by blast
qed

text \<open>Three sentences and \<open>batch_size = 2\<close>: one batch, of the first two rows; the third
  row is in no batch.\<close>

theorem ptb_iterator_blocks_witness:
  "(1::int) \<le> 2 \<and>
   ptb_iterator \<lparr>EOS_INDEX = 0, PAD_INDEX = 1\<rparr> [2, 3, 0, 1, 4, 5, 6, 0, 1] 2 2 None =
     Inr [([[2, 3], [1, 4]], [[3, 0], [4, 5]], [[1, 1], [1, 1]])] \<and>
   length ([([[2, 3], [1, 4]], [[3, 0], [4, 5]], [[1, 1], [1, 1]])] :: batch list) =
     length (split_sentences \<lparr>EOS_INDEX = 0, PAD_INDEX = 1\<rparr> (map np_int32 [2, 3, 0, 1, 4, 5, 6, 0, 1])) div nat 2"
proof -
  have L: "(1::int) \<le> 2" by simp
  from ptb_iterator_blocks [OF L L, of "\<lparr>EOS_INDEX = 0, PAD_INDEX = 1\<rparr>" "[2, 3, 0, 1, 4, 5, 6, 0, 1]"]
  obtain batches where
    "ptb_iterator \<lparr>EOS_INDEX = 0, PAD_INDEX = 1\<rparr> [2, 3, 0, 1, 4, 5, 6, 0, 1] 2 2 None = Inr batches"
    "length batches = length (split_sentences \<lparr>EOS_INDEX = 0, PAD_INDEX = 1\<rparr> (map np_int32 [2, 3, 0, 1, 4, 5, 6, 0, 1])) div nat 2"
    by blast
  then have "length ([([[2, 3], [1, 4]], [[3, 0], [4, 5]], [[1, 1], [1, 1]])] :: batch list) =
     length (split_sentences \<lparr>EOS_INDEX = 0, PAD_INDEX = 1\<rparr> (map np_int32 [2, 3, 0, 1, 4, 5, 6, 0, 1])) div nat 2"
    by (simp only: ex_iter sum.inject)
  then show ?thesis using L ex_iter by blast
qed

text \<open>
  C2. For every batch \<open>(x, y, w)\<close> that the iteration yields with \<open>batch_size \<ge> 1\<close> and
  \<open>sequence_length \<ge> 1\<close>: input \<open>x\<close> and target \<open>y\<close> have \<open>batch_size\<close> rows of
  \<open>sequence_length\<close> entries and are cut from the same rows of the padded matrix, \<open>x\<close>
  without their last column and \<open>y\<close> without their first; so column \<open>t\<close> of the target is
  column \<open>t+1\<close> of the input whenever both columns exist; and the weight \<open>w\<close> is the matrix
  of ones of the shape of \<open>x\<close>.
\<close>

theorem ptb_iterator_shift:
  assumes "1 \<le> batch_size" and "1 \<le> sequence_length"
    and "ptb_iterator g raw_data batch_size sequence_length epoch_size_override = Inr batches"
    and "(x, y, w) \<in> set batches"
  shows "length x = nat batch_size \<and> length y = nat batch_size \<and>
    (\<forall>row \<in> set x. length row = nat sequence_length) \<and>
    (\<forall>row \<in> set y. length row = nat sequence_length) \<and>
    (\<exists>rows. x = map butlast rows \<and> y = map tl rows) \<and>
    (\<forall>t. t + 1 < nat sequence_length \<longrightarrow> map (\<lambda>row. row ! t) y = map (\<lambda>row. row ! (t + 1)) x) \<and>
    w = replicate (nat batch_size) (replicate (nat sequence_length) 1)"
proof -
  let ?sentences = "split_sentences g (map np_int32 raw_data)"
  let ?b = "nat batch_size"
  let ?L = "nat sequence_length"
  from ptb_iterator_Inr [OF assms(1,3)] obtain data where
    pad: "pad_sentences g ?sentences sequence_length = Inr data" and
    batches: "batches = map (make_batch data batch_size) [0..<length ?sentences div ?b]"
    by blast
  from pad_sentences_shape [OF pad] have
    n: "length data = length ?sentences" and w: "\<forall>row \<in> set data. length row = nat (sequence_length + 1)"
    by simp_all
  from assms(4) batches obtain i where i: "i < length ?sentences div ?b"
    and xyw: "(x, y, w) = make_batch data batch_size i" by auto
  define rows where "rows = take ?b (drop (i * ?b) data)"
  have x: "x = map butlast rows" and y: "y = map tl rows" and w_def: "w = map (map (\<lambda>_. 1)) x"
    using xyw by (simp_all add: make_batch_rows [OF assms(1)] rows_def)
  from i have "i + 1 \<le> length ?sentences div ?b" by simp
  then have "(i + 1) * ?b \<le> (length ?sentences div ?b) * ?b" by (rule mult_le_mono1)
  also have "\<dots> \<le> length data" by (simp add: n)
  finally have "?b \<le> length data - i * ?b" by simp
  then have len_rows: "length rows = ?b" by (simp add: rows_def)
  have "set rows \<subseteq> set data"
    unfolding rows_def by (meson set_take_subset set_drop_subset subset_trans)
  with w have row_len: "\<forall>row \<in> set rows. length row = ?L + 1"
    using assms(2) by (auto simp: nat_add_distrib)
  have 1: "length x = ?b" "length y = ?b" by (simp_all add: x y len_rows)
  have 2: "\<forall>row \<in> set x. length row = ?L" using row_len by (auto simp: x)
  have 3: "\<forall>row \<in> set y. length row = ?L" using row_len by (auto simp: y)
  have 4: "\<forall>t. t + 1 < ?L \<longrightarrow> map (\<lambda>row. row ! t) y = map (\<lambda>row. row ! (t + 1)) x"
    using row_len by (auto simp: x y nth_tl nth_butlast)
  have "map (\<lambda>_. 1) row = replicate ?L (1 :: int32)" if "row \<in> set x" for row
    using that 2 by (simp add: map_replicate_const)
  then have 5: "w = replicate ?b (replicate ?L 1)"
    unfolding w_def using 1(1) by (intro map_const_replicate) simp_all
  show ?thesis using 1 2 3 4 5 x y by blast
qed

theorem ptb_iterator_shift_witness:
  "(1::int) \<le> 2 \<and>
   ptb_iterator \<lparr>EOS_INDEX = 0, PAD_INDEX = 1\<rparr> [2, 3, 0, 1, 4, 5, 6, 0, 1] 2 2 None =
     Inr [([[2, 3], [1, 4]], [[3, 0], [4, 5]], [[1, 1], [1, 1]])] \<and>
   map (\<lambda>row. row ! 0) [[3, 0], [4, 5 :: int32]] = map (\<lambda>row. row ! (0 + 1)) [[2, 3], [1, 4 :: int32]] \<and>
   [[1, 1], [1, 1 :: int32]] = replicate (nat 2) (replicate (nat 2) 1)"
proof -
  have L: "(1::int) \<le> 2" by simp
  have "(([[2, 3], [1, 4]], [[3, 0], [4, 5]], [[1, 1], [1, 1]]) :: batch) \<in>
     set [([[2, 3], [1, 4]], [[3, 0], [4, 5]], [[1, 1], [1, 1]])]"
    by simp
  from ptb_iterator_shift [OF L L ex_iter this]
  have "(\<forall>t. t + 1 < nat 2 \<longrightarrow>
           map (\<lambda>row. row ! t) [[3, 0], [4, 5 :: int32]] = map (\<lambda>row. row ! (t + 1)) [[2, 3], [1, 4 :: int32]])"
    and w: "[[1, 1], [1, 1 :: int32]] = replicate (nat 2) (replicate (nat 2) 1)"
    by blast+
  then have "map (\<lambda>row. row ! 0) [[3, 0], [4, 5 :: int32]] = map (\<lambda>row. row ! (0 + 1)) [[2, 3], [1, 4 :: int32]]"
    by simp
  then show ?thesis using L ex_iter w by blast
qed

section \<open>The worked example\<close>

text \<open>
  C5 (as the code has it). For the corpus \<open>a b <eos> c <eos>\<close> with
  \<open>sequence_length = 2\<close> and \<open>batch_size = 1\<close>: \<open>build_vocab\<close> raises \<open>KeyError\<close> for the
  pad marker, which the corpus does not hold, so no vocabulary is returned and the module
  variables keep the values 0 and 0. The dictionary built at line 46 before the exception
  gives the id 0 to the end-of-sequence marker and 1, 2, 3 to \<open>a\<close>, \<open>b\<close>, \<open>c\<close>; the id
  stream that encoding with it gives is cut into the three sentences \<open>a b <eos>\<close>,
  \<open>c <eos>\<close> and the empty one that follows the last end-of-sequence id; the padded
  matrix has rows of width 3; and batch 0 has as input the columns \<open>[0,2)\<close> of row 0 and as
  target its columns \<open>[1,3)\<close>.
\<close>

theorem worked_example:
  "build_vocab [''a'', ''b'', ''<eos>'', ''c'', ''<eos>''] module_globals =
     (Inl (KeyError ''<pad>''), module_globals) \<and>
   word_ids (map fst (count_pairs [''a'', ''b'', ''<eos>'', ''c'', ''<eos>''])) =
     [(''<eos>'', 0), (''a'', 1), (''b'', 2), (''c'', 3)] \<and>
   file_to_word_ids [''a'', ''b'', ''<eos>'', ''c'', ''<eos>'']
     [(''<eos>'', 0), (''a'', 1), (''b'', 2), (''c'', 3)] = Inr [1, 2, 0, 3, 0] \<and>
   split_sentences module_globals (map np_int32 [1, 2, 0, 3, 0]) = [[1, 2, 0], [3, 0], []] \<and>
   pad_sentences module_globals [[1, 2, 0], [3, 0], []] 2 =
     Inr [[1, 2, 0], [3, 0, 0], [0, 0, 0]] \<and>
   ptb_iterator module_globals [1, 2, 0, 3, 0] 1 2 None =
     Inr [([take 2 [1, 2, 0]], [drop 1 [1, 2, 0]], [[1, 1]]),
          ([take 2 [3, 0, 0]], [drop 1 [3, 0, 0]], [[1, 1]]),
          ([take 2 [0, 0, 0]], [drop 1 [0, 0, 0]], [[1, 1]])]"
  by code_simp

text \<open>
  C5 (as stated) fails. On the five tokens \<open>a b <eos> c <eos>\<close> the pad marker is
  missing and \<open>build_vocab\<close> raises \<open>KeyError\<close>: there is no vocabulary to encode with.
  Encoded with the ids that line 46 assigns before the exception, the stream is cut into
  three sentences, not two: \<open>np.split\<close> returns the (empty) piece after the last
  end-of-sequence id as well.
\<close>

theorem worked_example_as_stated:
  "build_vocab [''a'', ''b'', ''<eos>'', ''c'', ''<eos>''] module_globals =
     (Inl (KeyError ''<pad>''), module_globals) \<and>
   file_to_word_ids [''a'', ''b'', ''<eos>'', ''c'', ''<eos>'']
     (word_ids (map fst (count_pairs [''a'', ''b'', ''<eos>'', ''c'', ''<eos>'']))) = Inr [1, 2, 0, 3, 0] \<and>
   split_sentences module_globals (map np_int32 [1, 2, 0, 3, 0]) = [[1, 2, 0], [3, 0], []]"
  by code_simp

end
